theory Spec2Isabelle
  imports Main "HOL-Library.Sublist"
begin

section \<open>Python strings\<close>

text \<open>
  A Python \<open>str\<close> is a sequence of Unicode code points. The column normaliser names the
  code point U+2019 (the curly apostrophe), which is outside the range of \<open>char\<close>, so
  a string is modelled as the list of its code points.
\<close>

type_synonym ustring = "nat list"

definition ustr :: "string \<Rightarrow> ustring" where
  "ustr s = map of_char s"

text \<open>
  \<open>str.lower()\<close>. On an ASCII code point it maps \<open>A\<close>..\<open>Z\<close> to \<open>a\<close>..\<open>z\<close> and leaves
  every other one alone. On a code point from 128 on it follows the Unicode case tables,
  which are not part of the program: one code point becomes one to three code points, and
  for the capital sigma the result depends on the neighbours. The tables are the parameter
  \<open>ul\<close>: \<open>ul s i\<close> is what the code point at index \<open>i\<close> of \<open>s\<close> becomes.
\<close>

definition ascii_lower :: "nat \<Rightarrow> nat" where
  "ascii_lower c = (if 65 \<le> c \<and> c \<le> 90 then c + 32 else c)"

fun lower_from :: "(ustring \<Rightarrow> nat \<Rightarrow> ustring) \<Rightarrow> ustring \<Rightarrow> nat \<Rightarrow> ustring \<Rightarrow> ustring" where
  "lower_from ul s i [] = []"
| "lower_from ul s i (c # cs) =
     (if c < 128 then [ascii_lower c] else ul s i) @ lower_from ul s (Suc i) cs"

definition lower :: "(ustring \<Rightarrow> nat \<Rightarrow> ustring) \<Rightarrow> ustring \<Rightarrow> ustring" where
  "lower ul s = lower_from ul s 0 s"

text \<open>\<open>a < b\<close> on two \<open>str\<close>: lexicographic on code points, a proper prefix is smaller.\<close>

fun str_less :: "ustring \<Rightarrow> ustring \<Rightarrow> bool" where
  "str_less a [] = False"
| "str_less [] (y # ys) = True"
| "str_less (x # xs) (y # ys) = (x < y \<or> (x = y \<and> str_less xs ys))"

text \<open>\<open>sub in s\<close> on two \<open>str\<close>: \<open>sub\<close> occurs in \<open>s\<close> as a contiguous block.\<close>

fun str_contains :: "ustring \<Rightarrow> ustring \<Rightarrow> bool" where
  "str_contains [] sub = (sub = [])"
| "str_contains (c # cs) sub = (prefix sub (c # cs) \<or> str_contains cs sub)"

text \<open>
  \<open>re.sub\<close> for the two shapes of pattern the program uses. For a character class
  \<open>[...]\<close> every matching code point is replaced. For \<open>[...]+\<close> the scan goes left
  to right; at a matching code point the match is greedy, it takes every matching code
  point that follows, the replacement is emitted once and the scan goes on behind the
  match.
\<close>

definition re_sub_class :: "(nat \<Rightarrow> bool) \<Rightarrow> ustring \<Rightarrow> ustring \<Rightarrow> ustring" where
  "re_sub_class p repl s = concat (map (\<lambda>c. if p c then repl else [c]) s)"

function re_sub_plus :: "(nat \<Rightarrow> bool) \<Rightarrow> ustring \<Rightarrow> ustring \<Rightarrow> ustring" where
  "re_sub_plus p repl [] = []"
| "re_sub_plus p repl (c # cs) =
     (if p c then repl @ re_sub_plus p repl (dropWhile p cs)
      else c # re_sub_plus p repl cs)"
  by pat_completeness auto
termination
  by (relation "measure (\<lambda>(p, repl, s). length s)")
     (auto simp: length_dropWhile_le le_imp_less_Suc)

text \<open>\<open>s.strip(chars)\<close>: the code points of \<open>chars\<close> are dropped at both ends.\<close>

definition strip :: "(nat \<Rightarrow> bool) \<Rightarrow> ustring \<Rightarrow> ustring" where
  "strip p s = rev (dropWhile p (rev (dropWhile p s)))"

text \<open>\<open>str(x)\<close> inside an f-string, for a value that is a \<open>str\<close> or \<open>None\<close>.\<close>

definition py_format :: "ustring option \<Rightarrow> ustring" where
  "py_format v = (case v of None \<Rightarrow> ustr ''None'' | Some s \<Rightarrow> s)"

text \<open>
  \<open>os.path.join(a, b)\<close> in its POSIX flavour: an absolute second component replaces the
  first.
\<close>

definition path_join :: "ustring \<Rightarrow> ustring \<Rightarrow> ustring" where
  "path_join a b =
     (case b of
        c # cs \<Rightarrow>
          (if c = 47 then b
           else if a = [] \<or> last a = 47 then a @ b
           else a @ [47] @ b)
      | [] \<Rightarrow> (if a = [] \<or> last a = 47 then a @ b else a @ [47] @ b))"


section \<open>The column normaliser\<close>

text \<open>The class of the first pattern: U+2019 and the straight apostrophe U+0027.\<close>

definition is_apostrophe :: "nat \<Rightarrow> bool" where
  "is_apostrophe c = (c = 8217 \<or> c = 39)"

text \<open>The class \<open>[^a-z0-9]\<close> of the second pattern.\<close>

definition is_lower_alnum :: "nat \<Rightarrow> bool" where
  "is_lower_alnum c = ((97 \<le> c \<and> c \<le> 122) \<or> (48 \<le> c \<and> c \<le> 57))"

definition not_lower_alnum :: "nat \<Rightarrow> bool" where
  "not_lower_alnum c = (\<not> is_lower_alnum c)"

definition is_underscore :: "nat \<Rightarrow> bool" where
  "is_underscore c = (c = 95)"

definition to_snake_case :: "(ustring \<Rightarrow> nat \<Rightarrow> ustring) \<Rightarrow> ustring \<Rightarrow> ustring" where
  "to_snake_case ul column_name =
     (let col = lower ul column_name;
          col = re_sub_class is_apostrophe [] col;
          col = re_sub_plus not_lower_alnum (ustr ''_'') col
      in strip is_underscore col)"

subsection \<open>The normaliser as the specification words it\<close>

text \<open>
  The specification describes the normaliser by what happens to runs: the string is cut
  into its maximal runs of code points that are all inside or all outside \<open>[a-z0-9]\<close>,
  and every run outside is replaced by one underscore. \<open>runs\<close> cuts a list into its
  maximal runs with respect to a class, \<open>normalize_spec\<close> is the four steps in the
  specification's words.
\<close>

fun runs :: "('a \<Rightarrow> bool) \<Rightarrow> 'a list \<Rightarrow> 'a list list" where
  "runs p [] = []"
| "runs p (x # xs) =
     (case runs p xs of
        [] \<Rightarrow> [[x]]
      | r # rs \<Rightarrow> (if p x = p (hd r) then (x # r) # rs else [x] # r # rs))"

definition replace_runs :: "(nat \<Rightarrow> bool) \<Rightarrow> ustring \<Rightarrow> ustring \<Rightarrow> ustring" where
  "replace_runs p repl s = concat (map (\<lambda>r. if p (hd r) then repl else r) (runs p s))"

definition trim_underscores :: "ustring \<Rightarrow> ustring" where
  "trim_underscores s =
     (let t = dropWhile is_underscore s
      in take (length t - length (takeWhile is_underscore (rev t))) t)"

definition normalize_spec :: "(ustring \<Rightarrow> nat \<Rightarrow> ustring) \<Rightarrow> ustring \<Rightarrow> ustring" where
  "normalize_spec ul raw =
     trim_underscores
       (replace_runs not_lower_alnum (ustr ''_'')
          (filter (\<lambda>c. c \<noteq> 8217 \<and> c \<noteq> 39) (lower ul raw)))"


section \<open>Descriptors, the state mapping and the outside world\<close>

text \<open>
  A descriptor is a JSON object read with \<open>dict.get\<close>; a field is \<open>None\<close> when its key
  is absent. The fields are taken to hold what the catalog's schema says (strings, and a
  list of objects for \<open>distribution\<close>); values of another JSON type are outside the
  model.
\<close>

record dist =
  downloadURL :: "ustring option"

record dataset =
  "identifier" :: "ustring option"
  title :: "ustring option"
  theme :: "ustring option"
  modified :: "ustring option"
  distribution :: "dist list option"

text \<open>
  \<open>metadata["datasets"]\<close>: a dictionary from identifiers to timestamps. \<open>process_dataset\<close>
  stores \<open>dataset.get("modified")\<close> under \<open>dataset.get("identifier")\<close>, and each of them
  is \<open>None\<close> when its key is absent, so both keys and values are optional strings. The
  state file is taken to hold this dictionary as it is: its JSON encoding is not
  modelled.
\<close>

type_synonym metadata = "ustring option \<rightharpoonup> ustring option"

datatype error = IndexError | TypeError | HTTPError | ParserError | OSError

record table =
  columns :: "ustring list"
  rows :: "ustring list list"

text \<open>
  What the program gets from outside in one run: the Unicode case tables, the answer of
  the metastore, what \<open>pandas.read_csv\<close> gives for a locator, whether \<open>os.makedirs\<close>,
  \<open>DataFrame.to_csv\<close> and the writing of the state file fail, and the order in which
  the worker pool completes the submitted tasks.
\<close>

record env =
  unicode_lower :: "ustring \<Rightarrow> nat \<Rightarrow> ustring"
  metastore_items :: "error + dataset list"
  read_csv :: "ustring \<Rightarrow> error + table"
  makedirs :: "error option"
  to_csv :: "ustring \<Rightarrow> error option"
  json_dump :: "error option"
  completion_order :: "dataset list \<Rightarrow> dataset list"

text \<open>
  What the program leaves outside: the state file (\<open>None\<close> while it does not exist),
  the files under the output directory, and the lines printed.
\<close>

record world =
  metadata_file :: "metadata option"
  output_files :: "ustring \<rightharpoonup> table"
  stdout :: "ustring list"

definition OUTPUT_DIR :: ustring where
  "OUTPUT_DIR = ustr ''output''"

definition print_line :: "ustring \<Rightarrow> world \<Rightarrow> world" where
  "print_line s w = w\<lparr>stdout := stdout w @ [s]\<rparr>"


section \<open>The program\<close>

definition load_metadata :: "world \<Rightarrow> metadata" where
  "load_metadata w = (case metadata_file w of Some m \<Rightarrow> m | None \<Rightarrow> Map.empty)"

definition save_metadata :: "env \<Rightarrow> metadata \<Rightarrow> world \<Rightarrow> (error + unit) \<times> world" where
  "save_metadata e md w =
     (case json_dump e of
        Some err \<Rightarrow> (Inl err, w)
      | None \<Rightarrow> (Inr (), w\<lparr>metadata_file := Some md\<rparr>))"

definition fetch_datasets :: "env \<Rightarrow> error + dataset list" where
  "fetch_datasets e = metastore_items e"

definition is_hospital_dataset :: "(ustring \<Rightarrow> nat \<Rightarrow> ustring) \<Rightarrow> dataset \<Rightarrow> bool" where
  "is_hospital_dataset ul d =
     (let theme = (case theme d of None \<Rightarrow> [] | Some t \<Rightarrow> t)
      in str_contains (lower ul theme) (ustr ''hospital''))"

text \<open>\<open>a > b\<close> where each side is a \<open>str\<close> or \<open>None\<close>: \<open>None\<close> on either side raises.\<close>

fun py_greater :: "ustring option \<Rightarrow> ustring option \<Rightarrow> error + bool" where
  "py_greater (Some a) (Some b) = Inr (str_less b a)"
| "py_greater a b = Inl TypeError"

definition needs_update :: "dataset \<Rightarrow> metadata \<Rightarrow> error + bool" where
  "needs_update d md =
     (let dataset_id = identifier d;
          last_modified = modified d
      in case md dataset_id of
           None \<Rightarrow> Inr True
         | Some stored \<Rightarrow> py_greater last_modified stored)"

text \<open>
  The list comprehension of \<open>main\<close>: \<open>needs_update\<close> is only called on a descriptor
  that \<open>is_hospital_dataset\<close> accepts, and an error it raises ends the comprehension.
\<close>

fun hospital_datasets ::
  "(ustring \<Rightarrow> nat \<Rightarrow> ustring) \<Rightarrow> metadata \<Rightarrow> dataset list \<Rightarrow> error + dataset list" where
  "hospital_datasets ul md [] = Inr []"
| "hospital_datasets ul md (d # ds) =
     (if is_hospital_dataset ul d then
        (case needs_update d md of
           Inl err \<Rightarrow> Inl err
         | Inr b \<Rightarrow>
             (case hospital_datasets ul md ds of
                Inl err \<Rightarrow> Inl err
              | Inr sel \<Rightarrow> Inr (if b then d # sel else sel)))
      else hospital_datasets ul md ds)"

text \<open>
  \<open>process_dataset\<close> returns its result (an error, \<open>None\<close> or the output path) with
  the state mapping and the world as it leaves them. A write that fails is taken to
  leave no file behind.
\<close>

definition output_path_of :: "dataset \<Rightarrow> ustring" where
  "output_path_of d = path_join OUTPUT_DIR (py_format (identifier d) @ ustr ''.csv'')"

definition process_dataset ::
  "env \<Rightarrow> dataset \<Rightarrow> metadata \<Rightarrow> world \<Rightarrow> (error + ustring option) \<times> metadata \<times> world" where
  "process_dataset e d md w =
     (let dataset_id = identifier d;
          title = (case title d of None \<Rightarrow> dataset_id | Some t \<Rightarrow> Some t);
          last_modified = modified d
      in case (case distribution d of None \<Rightarrow> [\<lparr>downloadURL = None\<rparr>] | Some ds \<Rightarrow> ds) of
           [] \<Rightarrow> (Inl IndexError, md, w)
         | first # others \<Rightarrow>
            (case downloadURL first of
               None \<Rightarrow> (Inr None, md, w)
             | Some download_url \<Rightarrow>
                 if download_url = [] then (Inr None, md, w)
                 else
                   let w1 = print_line (ustr ''Processing dataset: '' @ py_format title) w
                   in case read_csv e download_url of
                        Inl err \<Rightarrow> (Inl err, md, w1)
                      | Inr df0 \<Rightarrow>
                          let df = df0\<lparr>columns := map (to_snake_case (unicode_lower e)) (columns df0)\<rparr>
                          in case makedirs e of
                               Some err \<Rightarrow> (Inl err, md, w1)
                             | None \<Rightarrow>
                                 let output_path = output_path_of d
                                 in case to_csv e output_path of
                                      Some err \<Rightarrow> (Inl err, md, w1)
                                    | None \<Rightarrow>
                                        (Inr (Some output_path),
                                         md(dataset_id \<mapsto> last_modified),
                                         w1\<lparr>output_files := (output_files w1)(output_path \<mapsto> df)\<rparr>)))"

text \<open>
  The worker pool. The tasks share the state mapping and the world; each is taken to run
  as one step, in the order in which the tasks complete, which \<open>completion_order\<close> gives
  for the list of submitted tasks. \<open>run_tasks\<close> returns the tasks' results in that order.
\<close>

fun run_tasks ::
  "env \<Rightarrow> dataset list \<Rightarrow> metadata \<Rightarrow> world \<Rightarrow> (error + ustring option) list \<times> metadata \<times> world" where
  "run_tasks e [] md w = ([], md, w)"
| "run_tasks e (d # ds) md w =
     (case process_dataset e d md w of
        (r, md1, w1) \<Rightarrow>
          (case run_tasks e ds md1 w1 of
             (rs, md2, w2) \<Rightarrow> (r # rs, md2, w2)))"

text \<open>
  The loop over \<open>as_completed\<close>: \<open>future.result()\<close> gives the task's value or raises the
  task's error again; a path is reported, \<open>None\<close> is not.
\<close>

fun collect_results :: "(error + ustring option) list \<Rightarrow> world \<Rightarrow> (error + unit) \<times> world" where
  "collect_results [] w = (Inr (), w)"
| "collect_results (Inl err # rs) w = (Inl err, w)"
| "collect_results (Inr None # rs) w = collect_results rs w"
| "collect_results (Inr (Some p) # rs) w =
     collect_results rs (if p \<noteq> [] then print_line (ustr ''Saved cleaned file to '' @ p) w else w)"

text \<open>
  \<open>main\<close>. Leaving the \<open>with\<close> block waits for every submitted task, also when the
  loop over the results was left by an error: the world that \<open>main\<close> leaves holds the
  effects of all tasks.
\<close>

definition main :: "env \<Rightarrow> world \<Rightarrow> (error + unit) \<times> world" where
  "main e w =
     (let metadata = load_metadata w
      in case fetch_datasets e of
           Inl err \<Rightarrow> (Inl err, w)
         | Inr datasets \<Rightarrow>
            (case hospital_datasets (unicode_lower e) metadata datasets of
               Inl err \<Rightarrow> (Inl err, w)
             | Inr selected \<Rightarrow>
                 if selected = [] then
                   (Inr (), print_line (ustr ''No new or updated hospital datasets found.'') w)
                 else
                   (case run_tasks e (completion_order e selected) metadata w of
                      (results, metadata1, w1) \<Rightarrow>
                        (case collect_results results w1 of
                           (Inl err, w2) \<Rightarrow> (Inl err, w2)
                         | (Inr u, w2) \<Rightarrow>
                             (case save_metadata e metadata1 w2 of
                                (Inl err, w3) \<Rightarrow> (Inl err, w3)
                              | (Inr u', w3) \<Rightarrow>
                                  (Inr (), print_line (ustr ''Ingestion complete.'') w3))))))"


text \<open>
  The shape of a normalised name: lowercase ASCII letters, digits and underscores only,
  and never two underscores in a row.
\<close>

definition snake_form :: "ustring \<Rightarrow> bool" where
  "snake_form t =
     ((\<forall>c \<in> set t. is_lower_alnum c \<or> c = 95) \<and>
      successively (\<lambda>a b. \<not> (a = 95 \<and> b = 95)) t)"


section \<open>Notions the statements use\<close>




section \<open>Concrete inputs\<close>

text \<open>Case tables that leave every code point from 128 on as it is.\<close>

definition ul_identity :: "ustring \<Rightarrow> nat \<Rightarrow> ustring" where
  "ul_identity s i = [s ! i]"

text \<open>
  Descriptors, catalogs, state mappings and worlds for the examples: a hospital-themed
  descriptor with one distribution, one of another theme, one without its \<open>modified\<close>
  field, and one without distributions; an outside world in which every call succeeds
  and the tasks complete in the order of their submission, and one in which reading the
  locator \<open>u2\<close> fails.
\<close>

definition hospital_ds :: "string \<Rightarrow> string \<Rightarrow> string \<Rightarrow> dataset" where
  "hospital_ds i m u =
     \<lparr>identifier = Some (ustr i), title = Some (ustr ''General information''),
      theme = Some (ustr ''Hospitals''), modified = Some (ustr m),
      distribution = Some [\<lparr>downloadURL = Some (ustr u)\<rparr>]\<rparr>"

definition nursing_ds :: dataset where
  "nursing_ds =
     \<lparr>identifier = Some (ustr ''N1''), title = None, theme = Some (ustr ''Nursing Home''),
      modified = Some (ustr ''2024-03-01''),
      distribution = Some [\<lparr>downloadURL = Some (ustr ''n1'')\<rparr>]\<rparr>"

definition no_modified_ds :: dataset where
  "no_modified_ds =
     \<lparr>identifier = Some (ustr ''D1''), title = None, theme = Some (ustr ''HOSPITAL''),
      modified = None, distribution = None\<rparr>"


definition catalog_ex :: "dataset list" where
  "catalog_ex =
     [hospital_ds ''D1'' ''2024-01-01'' ''u1'', nursing_ds,
      hospital_ds ''D2'' ''2024-01-01'' ''u2'', hospital_ds ''D3'' ''2024-02-01'' ''u3'']"

definition catalog3 :: "dataset list" where
  "catalog3 =
     [hospital_ds ''D1'' ''2024-02-01'' ''u1'', hospital_ds ''D2'' ''2024-02-01'' ''u2'',
      hospital_ds ''D3'' ''2024-02-01'' ''u3'']"

definition sample_table :: table where
  "sample_table = \<lparr>columns = [ustr ''Facility ID'', ustr ''Hospital Name''], rows = [[ustr ''1'', ustr ''A'']]\<rparr>"

definition env_ok :: "dataset list \<Rightarrow> env" where
  "env_ok catalog =
     \<lparr>unicode_lower = ul_identity, metastore_items = Inr catalog,
      read_csv = (\<lambda>url. Inr sample_table), makedirs = None, to_csv = (\<lambda>path. None),
      json_dump = None, completion_order = (\<lambda>tasks. tasks)\<rparr>"

definition env_u2_fails :: "dataset list \<Rightarrow> env" where
  "env_u2_fails catalog =
     (env_ok catalog)\<lparr>read_csv := (\<lambda>url. if url = ustr ''u2'' then Inl HTTPError else Inr sample_table)\<rparr>"

definition world0 :: world where
  "world0 = \<lparr>metadata_file = None, output_files = Map.empty, stdout = []\<rparr>"

definition md_ex :: metadata where
  "md_ex = [Some (ustr ''D1'') \<mapsto> Some (ustr ''2024-01-01''),
            Some (ustr ''D3'') \<mapsto> Some (ustr ''2023-12-31'')]"

definition world1 :: world where
  "world1 = \<lparr>metadata_file = Some md_ex, output_files = Map.empty, stdout = []\<rparr>"


section \<open>The column normaliser: runs, replacement and trimming\<close>

lemma re_sub_class_delete: "re_sub_class p [] s = filter (\<lambda>c. \<not> p c) s"
  by (induction s) (simp_all add: re_sub_class_def)

lemma runs_Nil_iff: "runs p xs = [] \<longleftrightarrow> xs = []"
  by (cases xs) (simp_all split: list.splits)

lemma concat_runs: "concat (runs p xs) = xs"
  by (induction xs) (auto split: list.splits)

lemma runs_nonempty: "r \<in> set (runs p xs) \<Longrightarrow> r \<noteq> []"
  by (induction xs arbitrary: r) (auto split: list.splits if_splits)

lemma hd_hd_runs: "hd (hd (runs p (x # xs))) = x"
  by (simp split: list.splits)

lemma runs_same_class: "r \<in> set (runs p xs) \<Longrightarrow> c \<in> set r \<Longrightarrow> p c = p (hd r)"
proof (induction xs arbitrary: r c)
  case Nil
  then show ?case by simp
next
  case (Cons x xs)
  show ?case
  proof (cases "runs p xs")
    case Nil
    with Cons.prems show ?thesis by simp
  next
    case (Cons r0 rs)
    have in0: "r0 \<in> set (runs p xs)" using Cons by simp
    show ?thesis
    proof (cases "p x = p (hd r0)")
      case True
      with Cons Cons.prems have "r = x # r0 \<or> r \<in> set rs" by simp
      then show ?thesis
      proof
        assume r: "r = x # r0"
        with Cons.prems(2) have "c = x \<or> c \<in> set r0" by simp
        then show ?thesis using r True Cons.IH [OF in0] by auto
      next
        assume "r \<in> set rs"
        then have "r \<in> set (runs p xs)" using Cons by simp
        then show ?thesis using Cons.IH Cons.prems(2) by blast
      qed
    next
      case False
      with Cons Cons.prems have "r = [x] \<or> r \<in> set (runs p xs)" by auto
      then show ?thesis using Cons.IH Cons.prems(2) by auto
    qed
  qed
qed

lemma runs_maximal: "successively (\<lambda>r s. p (hd r) \<noteq> p (hd s)) (runs p xs)"
proof (induction xs)
  case Nil
  then show ?case by simp
next
  case (Cons x xs)
  then show ?case
    by (cases "runs p xs") (auto simp: successively_Cons)
qed

lemma replace_runs_Nil: "replace_runs p repl [] = []"
  by (simp add: replace_runs_def)

lemma replace_runs_Cons:
  "replace_runs p repl (x # xs) =
     (if p x then repl @ replace_runs p repl (dropWhile p xs)
      else x # replace_runs p repl xs)"
proof (induction xs arbitrary: x)
  case Nil
  then show ?case by (simp add: replace_runs_def)
next
  case (Cons y ys)
  obtain r rs where rr: "runs p (y # ys) = r # rs"
    by (cases "runs p (y # ys)") (simp_all add: runs_Nil_iff del: runs.simps)
  have hdr: "hd r = y" using hd_hd_runs [of p y ys] rr by simp
  have rne: "r \<noteq> []" using runs_nonempty [of r p "y # ys"] rr by simp
  have unfold: "runs p (x # y # ys) = (if p x = p y then (x # r) # rs else [x] # r # rs)"
    using rr hdr by simp
  have tail: "replace_runs p repl (y # ys) = (if p y then repl else r) @ concat (map (\<lambda>r. if p (hd r) then repl else r) rs)"
    using rr hdr by (simp add: replace_runs_def del: runs.simps)
  show ?case
  proof (cases "p x")
    case px: True
    show ?thesis
    proof (cases "p y")
      case True
      have "replace_runs p repl (x # y # ys) = replace_runs p repl (y # ys)"
        using px True unfold tail by (simp add: replace_runs_def del: runs.simps)
      also have "\<dots> = repl @ replace_runs p repl (dropWhile p ys)"
        using Cons.IH [of y] True by simp
      finally show ?thesis using px True by simp
    next
      case False
      have "replace_runs p repl (x # y # ys) = repl @ replace_runs p repl (y # ys)"
        using px False unfold rr by (simp add: replace_runs_def del: runs.simps)
      then show ?thesis using px False by simp
    qed
  next
    case npx: False
    show ?thesis
    proof (cases "p y")
      case True
      have "replace_runs p repl (x # y # ys) = x # replace_runs p repl (y # ys)"
        using npx True unfold rr by (simp add: replace_runs_def del: runs.simps)
      then show ?thesis using npx by simp
    next
      case False
      have "replace_runs p repl (x # y # ys) = x # replace_runs p repl (y # ys)"
        using npx False unfold tail by (simp add: replace_runs_def del: runs.simps)
      then show ?thesis using npx by simp
    qed
  qed
qed

lemma re_sub_plus_replace_runs: "re_sub_plus p repl s = replace_runs p repl s"
  by (induction p repl s rule: re_sub_plus.induct)
     (simp_all add: replace_runs_Nil replace_runs_Cons)

lemma rev_dropWhile_rev:
  "rev (dropWhile p (rev t)) = take (length t - length (takeWhile p (rev t))) t"
proof -
  have "rev t = takeWhile p (rev t) @ dropWhile p (rev t)" by simp
  then have "t = rev (dropWhile p (rev t)) @ rev (takeWhile p (rev t))"
    by (metis rev_append rev_rev_ident)
  then have "take (length (rev (dropWhile p (rev t)))) t = rev (dropWhile p (rev t))"
    by (metis append_eq_conv_conj)
  moreover have "length (rev (dropWhile p (rev t))) = length t - length (takeWhile p (rev t))"
    by (metis length_rev length_append takeWhile_dropWhile_id add_diff_cancel_left')
  ultimately show ?thesis by simp
qed

lemma strip_trim: "strip is_underscore s = trim_underscores s"
  by (simp add: strip_def trim_underscores_def Let_def rev_dropWhile_rev)

text \<open>
  C7. The column normaliser is the algorithm of the specification: lowercase, delete
  the curly and the straight apostrophe with nothing in their place, replace every
  maximal run of code points outside \<open>[a-z0-9]\<close> by one underscore, trim the
  underscores at both ends; and it gives the two values the specification lists.
\<close>

theorem to_snake_case_algorithm:
  "to_snake_case ul x = normalize_spec ul x \<and>
   to_snake_case ul (ustr ''Patients'' @ [39] @ ustr '' rating of the facility'')
     = ustr ''patients_rating_of_the_facility'' \<and>
   to_snake_case ul (ustr ''  A--B__C  '') = ustr ''a_b_c''"
proof (intro conjI)
  show "to_snake_case ul x = normalize_spec ul x"
    by (simp add: to_snake_case_def normalize_spec_def Let_def re_sub_class_delete
        re_sub_plus_replace_runs strip_trim is_apostrophe_def)
  show "to_snake_case ul (ustr ''Patients'' @ [39] @ ustr '' rating of the facility'')
     = ustr ''patients_rating_of_the_facility''"
    by code_simp
  show "to_snake_case ul (ustr ''  A--B__C  '') = ustr ''a_b_c''"
    by code_simp
qed

theorem to_snake_case_algorithm_witness:
  "normalize_spec ul_identity (ustr ''Patients'' @ [8217] @ ustr '' Rating (%)'')
     = ustr ''patients_rating''"
proof -
  have "to_snake_case ul_identity (ustr ''Patients'' @ [8217] @ ustr '' Rating (%)'')
     = ustr ''patients_rating''"
    by code_simp
  then show ?thesis
    using to_snake_case_algorithm
      [of ul_identity "ustr ''Patients'' @ [8217] @ ustr '' Rating (%)''"]
    by (simp only:)
qed


section \<open>The column normaliser: the shape of its result\<close>

lemma underscore_class: "not_lower_alnum 95" "\<not> is_lower_alnum 95"
  by (simp_all add: not_lower_alnum_def is_lower_alnum_def)

lemma re_sub_plus_hd:
  "s = [] \<or> \<not> p (hd s) \<Longrightarrow> re_sub_plus p repl s = [] \<or> \<not> p (hd (re_sub_plus p repl s))"
  by (cases s) auto

lemma dropWhile_hd: "dropWhile p cs = [] \<or> \<not> p (hd (dropWhile p cs))"
  using hd_dropWhile [of p cs] by blast

lemma snake_form_re_sub_plus: "snake_form (re_sub_plus not_lower_alnum [95] s)"
proof (induction not_lower_alnum "[95::nat]" s rule: re_sub_plus.induct)
  case 1
  then show ?case by (simp add: snake_form_def)
next
  case (2 c cs)
  show ?case
  proof (cases "not_lower_alnum c")
    case True
    let ?r = "re_sub_plus not_lower_alnum [95] (dropWhile not_lower_alnum cs)"
    have ih: "snake_form ?r" using 2 True by simp
    have "?r = [] \<or> \<not> not_lower_alnum (hd ?r)"
      by (rule re_sub_plus_hd) (rule dropWhile_hd)
    then have "?r = [] \<or> hd ?r \<noteq> 95" using underscore_class(1) by metis
    then have "snake_form (95 # ?r)"
      using ih by (auto simp: snake_form_def successively_Cons)
    then show ?thesis using True by simp
  next
    case False
    then have c: "is_lower_alnum c" "c \<noteq> 95"
      using underscore_class by (auto simp: not_lower_alnum_def)
    have ih: "snake_form (re_sub_plus not_lower_alnum [95] cs)" using 2 False by simp
    then have "snake_form (c # re_sub_plus not_lower_alnum [95] cs)"
      using c by (auto simp: snake_form_def successively_Cons)
    then show ?thesis using False by simp
  qed
qed

lemma snake_form_fixed: "snake_form t \<Longrightarrow> re_sub_plus not_lower_alnum [95] t = t"
proof (induction not_lower_alnum "[95::nat]" t rule: re_sub_plus.induct)
  case 1
  then show ?case by simp
next
  case (2 c cs)
  have tl: "snake_form cs"
    using 2(3) by (auto simp: snake_form_def successively_Cons)
  show ?case
  proof (cases "not_lower_alnum c")
    case True
    then have c: "c = 95" using 2(3) by (auto simp: snake_form_def not_lower_alnum_def)
    have "cs = [] \<or> \<not> not_lower_alnum (hd cs)"
    proof (cases cs)
      case Nil
      then show ?thesis by simp
    next
      case (Cons d ds)
      then have "d \<noteq> 95" "is_lower_alnum d \<or> d = 95"
        using 2(3) c by (auto simp: snake_form_def)
      then show ?thesis using Cons by (simp add: not_lower_alnum_def)
    qed
    then have dw: "dropWhile not_lower_alnum cs = cs" by (cases cs) auto
    then show ?thesis using 2(1) True tl c by simp
  next
    case False
    then show ?thesis using 2(2) tl by simp
  qed
qed

lemma snake_form_dropWhile: "snake_form t \<Longrightarrow> snake_form (dropWhile p t)"
proof (induction t)
  case Nil
  then show ?case by simp
next
  case (Cons c cs)
  then have "snake_form cs" by (auto simp: snake_form_def successively_Cons)
  then show ?case using Cons by simp
qed

lemma snake_form_rev:
  assumes "snake_form t"
  shows "snake_form (rev t)"
proof -
  have "successively (\<lambda>a b. \<not> (a = 95 \<and> b = 95)) t"
    using assms by (simp add: snake_form_def)
  then have "successively (\<lambda>x y. \<not> (y = 95 \<and> x = 95)) t"
    by (rule successively_mono) auto
  then show ?thesis
    using assms by (simp add: snake_form_def)
qed

lemma snake_form_strip: "snake_form t \<Longrightarrow> snake_form (strip p t)"
  by (simp add: strip_def snake_form_dropWhile snake_form_rev)

lemma lower_from_ascii:
  "\<forall>c \<in> set cs. c < 128 \<and> \<not> (65 \<le> c \<and> c \<le> 90) \<Longrightarrow> lower_from ul s i cs = cs"
  by (induction cs arbitrary: i) (auto simp: ascii_lower_def)

lemma snake_form_lower: "snake_form t \<Longrightarrow> lower ul t = t"
  unfolding lower_def
  by (rule lower_from_ascii) (auto simp: snake_form_def is_lower_alnum_def)

lemma snake_form_no_apostrophe: "snake_form t \<Longrightarrow> re_sub_class is_apostrophe [] t = t"
  unfolding re_sub_class_delete
  by (rule filter_True) (auto simp: snake_form_def is_lower_alnum_def is_apostrophe_def)

lemma strip_ends: "strip p s = [] \<or> (\<not> p (hd (strip p s)) \<and> \<not> p (last (strip p s)))"
proof (cases "strip p s = []")
  case True
  then show ?thesis by simp
next
  case False
  let ?d = "dropWhile p s"
  let ?e = "dropWhile p (rev ?d)"
  have e: "?e \<noteq> []" using False by (simp add: strip_def)
  then have "\<not> p (hd ?e)" by (rule hd_dropWhile)
  then have l: "\<not> p (last (strip p s))" using e by (simp add: strip_def last_rev)
  have d: "?d \<noteq> []"
  proof
    assume "?d = []"
    then have "?e = []" by (simp only: rev.simps dropWhile.simps)
    with e show False by simp
  qed
  then have hd_d: "\<not> p (hd ?d)" by (rule hd_dropWhile)
  have "rev ?d = takeWhile p (rev ?d) @ ?e" by simp
  then have "?d = rev ?e @ rev (takeWhile p (rev ?d))"
    by (metis rev_append rev_rev_ident)
  then have "hd ?d = hd (rev ?e)" using e by (metis hd_append2 rev_is_Nil_conv)
  then have "\<not> p (hd (strip p s))" using hd_d by (simp add: strip_def)
  then show ?thesis using l by simp
qed

lemma strip_id: "t = [] \<or> (\<not> p (hd t) \<and> \<not> p (last t)) \<Longrightarrow> strip p t = t"
proof (cases t)
  case Nil
  then show ?thesis by (simp add: strip_def)
next
  case (Cons c cs)
  assume "t = [] \<or> (\<not> p (hd t) \<and> \<not> p (last t))"
  then have h: "\<not> p (hd t)" and l: "\<not> p (last t)" using Cons by auto
  have 1: "dropWhile p t = t" using h Cons by simp
  have "hd (rev t) = last t" using Cons by (simp add: hd_rev)
  then have 2: "dropWhile p (rev t) = rev t" using l by (simp add: dropWhile_eq_self_iff)
  show ?thesis by (simp add: strip_def 1 2)
qed

lemma strip_strip: "strip p (strip p s) = strip p s"
  by (rule strip_id) (rule strip_ends)

lemma snake_form_to_snake_case: "snake_form (to_snake_case ul x)"
  by (simp add: to_snake_case_def Let_def ustr_def snake_form_strip snake_form_re_sub_plus)

lemma to_snake_case_fixed:
  assumes "snake_form t" and "t = [] \<or> (\<not> is_underscore (hd t) \<and> \<not> is_underscore (last t))"
  shows "to_snake_case ul t = t"
  using assms
  by (simp add: to_snake_case_def Let_def ustr_def snake_form_lower snake_form_no_apostrophe
      snake_form_fixed strip_id)

text \<open>
  C8. The column normaliser is idempotent: normalising a normalised name changes
  nothing, for every string.
\<close>

theorem to_snake_case_idempotent:
  "to_snake_case ul (to_snake_case ul x) = to_snake_case ul x"
proof (rule to_snake_case_fixed)
  show "snake_form (to_snake_case ul x)" by (rule snake_form_to_snake_case)
  show "to_snake_case ul x = [] \<or>
    (\<not> is_underscore (hd (to_snake_case ul x)) \<and> \<not> is_underscore (last (to_snake_case ul x)))"
    unfolding to_snake_case_def Let_def by (rule strip_ends)
qed

theorem to_snake_case_idempotent_witness:
  "to_snake_case ul_identity (to_snake_case ul_identity (ustr ''  A--B__C  '')) = ustr ''a_b_c''"
proof -
  have "to_snake_case ul_identity (ustr ''  A--B__C  '') = ustr ''a_b_c''"
    by code_simp
  then show ?thesis
    using to_snake_case_idempotent [of ul_identity "ustr ''  A--B__C  ''"]
    by (simp only:)
qed


section \<open>Evaluating the examples\<close>

lemmas ex_defs = md_ex_def world1_def world0_def nursing_ds_def no_modified_ds_def hospital_ds_def
  env_ok_def env_u2_fails_def catalog_ex_def sample_table_def

lemmas str_defs = ustr_def lower_def ascii_lower_def ul_identity_def

lemmas run_defs = main_def fetch_datasets_def load_metadata_def save_metadata_def
  process_dataset_def is_hospital_dataset_def needs_update_def print_line_def Let_def
  output_path_of_def OUTPUT_DIR_def path_join_def py_format_def


section \<open>Containment and order of strings\<close>

text \<open>
  \<open>str_contains\<close> is containment as a contiguous block, and \<open>str_less\<close> is the
  lexicographic order on code points, as the library defines them.
\<close>

lemma str_contains_sublist: "str_contains s sub \<longleftrightarrow> sublist sub s"
  by (induction s) (simp_all add: sublist_Cons_right)

lemma str_less_lexord: "str_less a b \<longleftrightarrow> (a, b) \<in> lexord {(x, y). x < y}"
  by (induction a b rule: str_less.induct) simp_all

lemma str_less_irrefl: "\<not> str_less a a"
  by (induction a) simp_all


section \<open>The update predicate and the selection\<close>

lemma py_greater_Inl: "py_greater a b = Inl err \<longleftrightarrow> err = TypeError \<and> (a = None \<or> b = None)"
  by (cases a; cases b) auto

lemma py_greater_Inr: "py_greater a b = Inr r \<longleftrightarrow> (\<exists>x y. a = Some x \<and> b = Some y \<and> r = str_less y x)"
  by (cases a; cases b) auto

lemma needs_update_Inl:
  "needs_update d md = Inl err \<longleftrightarrow>
     err = TypeError \<and> (\<exists>stored. md (identifier d) = Some stored \<and> (modified d = None \<or> stored = None))"
  by (auto simp: needs_update_def Let_def py_greater_Inl split: option.splits)

lemma needs_update_Inr:
  "needs_update d md = Inr b \<longleftrightarrow>
     (md (identifier d) = None \<and> b) \<or>
     (\<exists>m s. md (identifier d) = Some (Some s) \<and> modified d = Some m \<and> b = str_less s m)"
  by (auto simp: needs_update_def Let_def py_greater_Inr split: option.splits)



lemma hospital_datasets_Inl:
  "d \<in> set ds \<Longrightarrow> is_hospital_dataset ul d \<Longrightarrow> needs_update d md = Inl err \<Longrightarrow>
     hospital_datasets ul md ds = Inl TypeError"
proof (induction ds)
  case Nil
  then show ?case by simp
next
  case (Cons x xs)
  have err: "err = TypeError" using Cons.prems(3) by (simp add: needs_update_Inl)
  show ?case
  proof (cases "x = d")
    case True
    then show ?thesis using Cons.prems err by simp
  next
    case False
    then have "hospital_datasets ul md xs = Inl TypeError" using Cons by simp
    moreover have "\<And>e. needs_update x md = Inl e \<Longrightarrow> e = TypeError"
      by (simp add: needs_update_Inl)
    ultimately show ?thesis by (auto split: sum.splits)
  qed
qed

lemma hospital_datasets_Inr:
  "(\<forall>d \<in> set ds. is_hospital_dataset ul d \<longrightarrow> (\<exists>b. needs_update d md = Inr b)) \<Longrightarrow>
     hospital_datasets ul md ds
       = Inr (filter (\<lambda>d. is_hospital_dataset ul d \<and> needs_update d md = Inr True) ds)"
  by (induction ds) auto

lemma hospital_datasets_Inr_iff:
  "hospital_datasets ul md ds = Inr sel \<longleftrightarrow>
     (\<forall>d \<in> set ds. is_hospital_dataset ul d \<longrightarrow> (\<exists>b. needs_update d md = Inr b)) \<and>
     sel = filter (\<lambda>d. is_hospital_dataset ul d \<and> needs_update d md = Inr True) ds"
proof
  assume a: "hospital_datasets ul md ds = Inr sel"
  have "\<forall>d \<in> set ds. is_hospital_dataset ul d \<longrightarrow> (\<exists>b. needs_update d md = Inr b)"
  proof (intro ballI impI)
    fix d assume d: "d \<in> set ds" "is_hospital_dataset ul d"
    show "\<exists>b. needs_update d md = Inr b"
    proof (cases "needs_update d md")
      case (Inl err)
      then show ?thesis using hospital_datasets_Inl [OF d Inl] a by simp
    next
      case (Inr b)
      then show ?thesis by simp
    qed
  qed
  then show "(\<forall>d \<in> set ds. is_hospital_dataset ul d \<longrightarrow> (\<exists>b. needs_update d md = Inr b)) \<and>
     sel = filter (\<lambda>d. is_hospital_dataset ul d \<and> needs_update d md = Inr True) ds"
    using a hospital_datasets_Inr [of ds ul md] by simp
next
  assume "(\<forall>d \<in> set ds. is_hospital_dataset ul d \<longrightarrow> (\<exists>b. needs_update d md = Inr b)) \<and>
     sel = filter (\<lambda>d. is_hospital_dataset ul d \<and> needs_update d md = Inr True) ds"
  then show "hospital_datasets ul md ds = Inr sel"
    using hospital_datasets_Inr [of ds ul md] by simp
qed



text \<open>
  C10. \<open>needs_update\<close> is not total: for every descriptor whose identifier is in the
  state mapping and whose \<open>modified\<close> field is absent it raises \<open>TypeError\<close> and
  returns no boolean; and the error is reached through \<open>main\<close>, for every catalog that
  holds such a descriptor with a hospital theme.
\<close>

theorem needs_update_raises_TypeError:
  assumes "md (identifier d) = Some stored" and "modified d = None"
  shows "needs_update d md = Inl TypeError \<and>
         (\<forall>e w ds. metastore_items e = Inr ds \<and> d \<in> set ds \<and>
              is_hospital_dataset (unicode_lower e) d \<and> load_metadata w = md
              \<longrightarrow> main e w = (Inl TypeError, w))"
proof
  show nu: "needs_update d md = Inl TypeError"
    using assms by (simp add: needs_update_Inl)
  show "\<forall>e w ds. metastore_items e = Inr ds \<and> d \<in> set ds \<and>
              is_hospital_dataset (unicode_lower e) d \<and> load_metadata w = md
              \<longrightarrow> main e w = (Inl TypeError, w)"
  proof (intro allI impI)
    fix e :: env and w :: world and ds :: "dataset list"
    assume a: "metastore_items e = Inr ds \<and> d \<in> set ds \<and>
              is_hospital_dataset (unicode_lower e) d \<and> load_metadata w = md"
    then have "hospital_datasets (unicode_lower e) md ds = Inl TypeError"
      using hospital_datasets_Inl [of d ds "unicode_lower e" md TypeError] nu by simp
    then show "main e w = (Inl TypeError, w)"
      using a by (simp add: main_def fetch_datasets_def)
  qed
qed

theorem needs_update_raises_TypeError_witness:
  "needs_update no_modified_ds md_ex = Inl TypeError \<and>
   main (env_ok [nursing_ds, no_modified_ds]) world1 = (Inl TypeError, world1)"
proof -
  have 1: "md_ex (identifier no_modified_ds) = Some (Some (ustr ''2024-01-01''))"
    by (simp add: ex_defs str_defs)
  have 2: "modified no_modified_ds = None"
    by (simp add: ex_defs)
  have 3: "metastore_items (env_ok [nursing_ds, no_modified_ds]) = Inr [nursing_ds, no_modified_ds] \<and>
     no_modified_ds \<in> set [nursing_ds, no_modified_ds] \<and>
     is_hospital_dataset (unicode_lower (env_ok [nursing_ds, no_modified_ds])) no_modified_ds \<and>
     load_metadata world1 = md_ex"
    by (simp add: env_ok_def world1_def load_metadata_def no_modified_ds_def
        is_hospital_dataset_def str_defs)
  show ?thesis
    using needs_update_raises_TypeError [of md_ex no_modified_ds "Some (ustr ''2024-01-01'')"] 1 2 3 by blast
qed


text \<open>
  C4, as amended. For every sequence of descriptors and every state mapping in which
  every hospital-themed descriptor whose identifier is in the state mapping has a
  \<open>modified\<close> timestamp and a stored timestamp (neither is \<open>None\<close>), the selection
  returns exactly the descriptors whose lowercased theme contains \<open>hospital\<close> and whose
  identifier is absent from the state mapping or whose timestamp is strictly greater
  than the stored one in the lexicographic order, in the order of the input; a
  descriptor whose timestamp equals the stored one is not selected.
\<close>

theorem selection_is_filter:
  assumes "\<forall>d \<in> set ds. is_hospital_dataset ul d \<longrightarrow>
             (\<forall>stored. md (identifier d) = Some stored \<longrightarrow> modified d \<noteq> None \<and> stored \<noteq> None)"
  shows "hospital_datasets ul md ds =
           Inr (filter (\<lambda>d. sublist (ustr ''hospital'') (lower ul (case theme d of None \<Rightarrow> [] | Some t \<Rightarrow> t)) \<and>
                  (md (identifier d) = None \<or>
                   (\<exists>m s. modified d = Some m \<and> md (identifier d) = Some (Some s) \<and>
                      (s, m) \<in> lexord {(x, y). x < y}))) ds) \<and>
         (\<forall>d sel. hospital_datasets ul md ds = Inr sel \<and> md (identifier d) = Some (modified d)
              \<longrightarrow> d \<notin> set sel)"
proof
  have ok: "\<forall>d \<in> set ds. is_hospital_dataset ul d \<longrightarrow> (\<exists>b. needs_update d md = Inr b)"
  proof (intro ballI impI)
    fix d assume d: "d \<in> set ds" "is_hospital_dataset ul d"
    show "\<exists>b. needs_update d md = Inr b"
    proof (cases "needs_update d md")
      case (Inl err)
      then show ?thesis using assms d by (auto simp: needs_update_Inl)
    next
      case (Inr b)
      then show ?thesis by simp
    qed
  qed
  have same: "(is_hospital_dataset ul d \<and> needs_update d md = Inr True) \<longleftrightarrow>
      (sublist (ustr ''hospital'') (lower ul (case theme d of None \<Rightarrow> [] | Some t \<Rightarrow> t)) \<and>
                  (md (identifier d) = None \<or>
                   (\<exists>m s. modified d = Some m \<and> md (identifier d) = Some (Some s) \<and>
                      (s, m) \<in> lexord {(x, y). x < y})))" for d
    by (auto simp: is_hospital_dataset_def Let_def str_contains_sublist needs_update_Inr
        str_less_lexord)
  show "hospital_datasets ul md ds =
           Inr (filter (\<lambda>d. sublist (ustr ''hospital'') (lower ul (case theme d of None \<Rightarrow> [] | Some t \<Rightarrow> t)) \<and>
                  (md (identifier d) = None \<or>
                   (\<exists>m s. modified d = Some m \<and> md (identifier d) = Some (Some s) \<and>
                      (s, m) \<in> lexord {(x, y). x < y}))) ds)"
    using hospital_datasets_Inr [OF ok] by (simp only: same)
  show "\<forall>d sel. hospital_datasets ul md ds = Inr sel \<and> md (identifier d) = Some (modified d)
              \<longrightarrow> d \<notin> set sel"
    by (auto simp: hospital_datasets_Inr_iff needs_update_Inr str_less_irrefl)
qed

theorem selection_is_filter_witness:
  "hospital_datasets ul_identity md_ex catalog_ex
     = Inr [hospital_ds ''D2'' ''2024-01-01'' ''u2'', hospital_ds ''D3'' ''2024-02-01'' ''u3'']"
proof -
  let ?P = "\<lambda>d. sublist (ustr ''hospital'') (lower ul_identity (case theme d of None \<Rightarrow> [] | Some t \<Rightarrow> t)) \<and>
                  (md_ex (identifier d) = None \<or>
                   (\<exists>m s. modified d = Some m \<and> md_ex (identifier d) = Some (Some s) \<and>
                      (s, m) \<in> lexord {(x, y). x < y}))"
  have hyp: "\<forall>d \<in> set catalog_ex. is_hospital_dataset ul_identity d \<longrightarrow>
      (\<forall>stored. md_ex (identifier d) = Some stored \<longrightarrow> modified d \<noteq> None \<and> stored \<noteq> None)"
    by (simp add: ex_defs str_defs is_hospital_dataset_def)
  have sel: "hospital_datasets ul_identity md_ex catalog_ex = Inr (filter ?P catalog_ex)"
    using selection_is_filter [OF hyp] by (rule conjunct1)
  have "filter ?P catalog_ex
      = [hospital_ds ''D2'' ''2024-01-01'' ''u2'', hospital_ds ''D3'' ''2024-02-01'' ''u3'']"
    by (simp add: str_contains_sublist [symmetric] str_less_lexord [symmetric] ex_defs str_defs)
  with sel show ?thesis by (simp only:)
qed

text \<open>
  C4 as stated fails: on a hospital-themed descriptor without its \<open>modified\<close> field whose
  identifier is in the state mapping the selection returns no list, it raises.
\<close>

theorem selection_raises_without_modified:
  "hospital_datasets ul_identity md_ex [no_modified_ds] = Inl TypeError"
  by (simp add: md_ex_def no_modified_ds_def is_hospital_dataset_def needs_update_def
      ustr_def lower_def ascii_lower_def)


section \<open>One task\<close>

lemma process_dataset_result_cases:
  "process_dataset e d md w = (r, md', w') \<Longrightarrow>
     (r = Inr (Some (output_path_of d)) \<and> md' = md(identifier d \<mapsto> modified d) \<and>
        to_csv e (output_path_of d) = None \<and>
        (\<exists>df. output_files w' = (output_files w)(output_path_of d \<mapsto> df)) \<and>
        metadata_file w' = metadata_file w)
     \<or> ((r = Inr None \<or> (\<exists>err. r = Inl err)) \<and> md' = md \<and>
        output_files w' = output_files w \<and> metadata_file w' = metadata_file w)"
  by (auto simp: process_dataset_def Let_def print_line_def
      split: list.splits option.splits sum.splits if_splits)


lemma process_dataset_skips_without_locator:
  "distribution d = None \<or>
   (\<exists>first others. distribution d = Some (first # others) \<and>
       (downloadURL first = None \<or> downloadURL first = Some []))
   \<Longrightarrow> process_dataset e d md w = (Inr None, md, w)"
  by (auto simp: process_dataset_def)

text \<open>
  C2. A descriptor whose distribution list is empty is not skipped: indexing the list
  raises \<open>IndexError\<close>, before anything is printed, written or stored.
\<close>

theorem process_dataset_empty_distribution_raises:
  "process_dataset e (d\<lparr>distribution := Some []\<rparr>) md w = (Inl IndexError, md, w)"
  by (simp add: process_dataset_def)

theorem process_dataset_empty_distribution_raises_witness:
  "process_dataset (env_ok []) ((hospital_ds ''D1'' ''2024-02-01'' ''u1'')\<lparr>distribution := Some []\<rparr>) md_ex world1
     = (Inl IndexError, md_ex, world1)"
  by (rule process_dataset_empty_distribution_raises)

text \<open>
  C5. The state mapping's entry is assigned only after the output file has been written:
  whenever \<open>process_dataset\<close> leaves the mapping changed it returns the output path,
  the write succeeded and the file is there; and whenever it raises, the mapping is as it
  was.
\<close>

theorem state_entry_only_after_write:
  "process_dataset e d md w = (r, md', w') \<Longrightarrow>
     (md' \<noteq> md \<longrightarrow>
        r = Inr (Some (output_path_of d)) \<and> to_csv e (output_path_of d) = None \<and>
        output_files w' (output_path_of d) \<noteq> None) \<and>
     (\<forall>err. r = Inl err \<longrightarrow> md' = md)"
  using process_dataset_result_cases [of e d md w r md' w'] by auto

theorem state_entry_only_after_write_witness:
  "fst (process_dataset (env_u2_fails []) (hospital_ds ''D2'' ''2024-01-01'' ''u2'') md_ex world1)
     = Inl HTTPError \<and>
   fst (snd (process_dataset (env_u2_fails []) (hospital_ds ''D2'' ''2024-01-01'' ''u2'') md_ex world1))
     = md_ex"
proof -
  let ?d = "hospital_ds ''D2'' ''2024-01-01'' ''u2''"
  obtain r md' w' where pd: "process_dataset (env_u2_fails []) ?d md_ex world1 = (r, md', w')"
    by (cases "process_dataset (env_u2_fails []) ?d md_ex world1") auto
  have r: "r = Inl HTTPError"
    using pd by (simp add: process_dataset_def Let_def env_u2_fails_def env_ok_def hospital_ds_def ustr_def)
  show ?thesis
    using state_entry_only_after_write [OF pd] r pd by simp
qed


section \<open>The run\<close>

lemma run_tasks_frame:
  "run_tasks e ts md w = (rs, md', w') \<Longrightarrow>
     metadata_file w' = metadata_file w \<and>
     dom (output_files w) \<subseteq> dom (output_files w') \<and>
     (\<forall>p. Inr (Some p) \<in> set rs \<longrightarrow> p \<in> dom (output_files w'))"
proof (induction ts arbitrary: md w rs md' w')
  case Nil
  then show ?case by simp
next
  case (Cons d ds)
  obtain r md1 w1 where pd: "process_dataset e d md w = (r, md1, w1)"
    by (cases "process_dataset e d md w") auto
  obtain rs2 md2 w2 where rt: "run_tasks e ds md1 w1 = (rs2, md2, w2)"
    by (cases "run_tasks e ds md1 w1") auto
  have eq: "rs = r # rs2" "md' = md2" "w' = w2"
    using Cons.prems pd rt by simp_all
  note ih = Cons.IH [OF rt]
  note step = process_dataset_result_cases [OF pd]
  have 1: "metadata_file w' = metadata_file w" using ih step eq by auto
  have sub1: "dom (output_files w) \<subseteq> dom (output_files w1)" using step by auto
  have 2: "dom (output_files w) \<subseteq> dom (output_files w')" using sub1 ih eq by auto
  have 3: "\<forall>p. Inr (Some p) \<in> set rs \<longrightarrow> p \<in> dom (output_files w')"
  proof (intro allI impI)
    fix p assume "Inr (Some p) \<in> set rs"
    then have "r = Inr (Some p) \<or> Inr (Some p) \<in> set rs2" using eq by auto
    then show "p \<in> dom (output_files w')"
    proof
      assume "r = Inr (Some p)"
      then have "p \<in> dom (output_files w1)" using step by auto
      then show ?thesis using ih eq by auto
    next
      assume "Inr (Some p) \<in> set rs2"
      then show ?thesis using ih eq by auto
    qed
  qed
  show ?case using 1 2 3 by simp
qed




lemma collect_results_frame:
  "metadata_file (snd (collect_results rs w)) = metadata_file w \<and>
   output_files (snd (collect_results rs w)) = output_files w"
  by (induction rs w rule: collect_results.induct) (simp_all add: print_line_def)

lemma collect_results_first:
  "Inl err0 \<in> set rs \<Longrightarrow>
     \<exists>err before after. fst (collect_results rs w) = Inl err \<and> rs = before @ Inl err # after \<and>
        (\<forall>err'. Inl err' \<notin> set before)"
proof (induction rs w rule: collect_results.induct)
  case (1 w)
  then show ?case by simp
next
  case (2 err rs w)
  have "Inl err # rs = [] @ Inl err # rs \<and> (\<forall>err'. Inl err' \<notin> set [])" by simp
  then show ?case by (metis collect_results.simps(2) fst_conv)
next
  case (3 rs w)
  then obtain err before after where
    "fst (collect_results rs w) = Inl err" "rs = before @ Inl err # after"
    "\<forall>err'. Inl err' \<notin> set before" by auto
  then have "fst (collect_results (Inr None # rs) w) = Inl err \<and>
      Inr None # rs = (Inr None # before) @ Inl err # after \<and>
      (\<forall>err'. Inl err' \<notin> set (Inr None # before))" by simp
  then show ?case by blast
next
  case (4 p rs w)
  let ?w = "if p \<noteq> [] then print_line (ustr ''Saved cleaned file to '' @ p) w else w"
  from 4 obtain err before after where
    "fst (collect_results rs ?w) = Inl err" "rs = before @ Inl err # after"
    "\<forall>err'. Inl err' \<notin> set before" by auto
  then have "fst (collect_results (Inr (Some p) # rs) w) = Inl err \<and>
      Inr (Some p) # rs = (Inr (Some p) # before) @ Inl err # after \<and>
      (\<forall>err'. Inl err' \<notin> set (Inr (Some p) # before))" by simp
  then show ?case by blast
qed

lemma collect_results_Inr:
  "fst (collect_results rs w) = Inr u \<Longrightarrow> Inl err \<notin> set rs"
  by (induction rs w rule: collect_results.induct) auto

lemma main_empty_selection:
  assumes "metastore_items e = Inr datasets"
    and "hospital_datasets (unicode_lower e) (load_metadata w) datasets = Inr []"
  shows "main e w = (Inr (), w\<lparr>stdout := stdout w @ [ustr ''No new or updated hospital datasets found.'']\<rparr>)"
  using assms by (simp add: main_def fetch_datasets_def print_line_def)

lemma main_success_cases:
  assumes cat: "metastore_items e = Inr datasets"
    and ok: "fst (main e w) = Inr ()"
  shows "\<exists>selected. hospital_datasets (unicode_lower e) (load_metadata w) datasets = Inr selected \<and>
     (selected = [] \<and> load_metadata (snd (main e w)) = load_metadata w \<or>
      selected \<noteq> [] \<and>
      (\<exists>rs md1 w1. run_tasks e (completion_order e selected) (load_metadata w) w = (rs, md1, w1) \<and>
         (\<forall>err. Inl err \<notin> set rs) \<and> metadata_file (snd (main e w)) = Some md1))"
proof (cases "hospital_datasets (unicode_lower e) (load_metadata w) datasets")
  case (Inl err)
  then show ?thesis using cat ok by (simp add: main_def fetch_datasets_def)
next
  case (Inr selected)
  show ?thesis
  proof (cases "selected = []")
    case True
    then have "main e w = (Inr (), w\<lparr>stdout := stdout w @ [ustr ''No new or updated hospital datasets found.'']\<rparr>)"
      using main_empty_selection [OF cat] Inr by simp
    then have "load_metadata (snd (main e w)) = load_metadata w"
      by (simp add: load_metadata_def)
    then show ?thesis using Inr True by simp
  next
    case False
    obtain rs md1 w1 where run: "run_tasks e (completion_order e selected) (load_metadata w) w = (rs, md1, w1)"
      by (cases "run_tasks e (completion_order e selected) (load_metadata w) w") auto
    obtain c w2 where cr: "collect_results rs w1 = (c, w2)"
      by (cases "collect_results rs w1") auto
    have m: "main e w =
        (case c of Inl err \<Rightarrow> (Inl err, w2)
         | Inr u \<Rightarrow> (case save_metadata e md1 w2 of
                      (Inl err, w3) \<Rightarrow> (Inl err, w3)
                    | (Inr u', w3) \<Rightarrow> (Inr (), print_line (ustr ''Ingestion complete.'') w3)))"
      using cat Inr False run cr by (simp add: main_def fetch_datasets_def)
    have c: "c = Inr ()"
      using ok m by (cases c) auto
    then have noerr: "\<forall>err. Inl err \<notin> set rs"
      using collect_results_Inr [of rs w1 "()"] cr by auto
    have "json_dump e = None"
      using ok m c by (cases "json_dump e") (auto simp: save_metadata_def)
    then have "main e w = (Inr (), print_line (ustr ''Ingestion complete.'') (w2\<lparr>metadata_file := Some md1\<rparr>))"
      using m c by (simp add: save_metadata_def)
    then have "metadata_file (snd (main e w)) = Some md1"
      by (simp add: print_line_def)
    then show ?thesis using Inr False run noerr by auto
  qed
qed


text \<open>
  C9. When the selection is empty the run prints that there is nothing to do and returns
  normally; the state file and the output files are as they were, and no task has run.
\<close>

theorem main_nothing_to_do:
  assumes "metastore_items e = Inr datasets"
    and "hospital_datasets (unicode_lower e) (load_metadata w) datasets = Inr []"
  shows "main e w = (Inr (), w\<lparr>stdout := stdout w @ [ustr ''No new or updated hospital datasets found.'']\<rparr>)"
  using assms by (simp add: main_def fetch_datasets_def print_line_def)

theorem main_nothing_to_do_witness:
  "main (env_ok [hospital_ds ''D1'' ''2024-01-01'' ''u1'', nursing_ds]) world1
     = (Inr (), world1\<lparr>stdout := [ustr ''No new or updated hospital datasets found.'']\<rparr>)"
proof -
  let ?e = "env_ok [hospital_ds ''D1'' ''2024-01-01'' ''u1'', nursing_ds]"
  have 1: "metastore_items ?e = Inr [hospital_ds ''D1'' ''2024-01-01'' ''u1'', nursing_ds]"
    by (simp add: env_ok_def)
  have 2: "hospital_datasets (unicode_lower ?e) (load_metadata world1)
      [hospital_ds ''D1'' ''2024-01-01'' ''u1'', nursing_ds] = Inr []"
    by (simp add: ex_defs str_defs load_metadata_def is_hospital_dataset_def needs_update_def)
  have 3: "stdout world1 = []" by (simp add: world1_def)
  show ?thesis
    using main_nothing_to_do [OF 1 2] 3 by simp
qed


text \<open>
  C3, as amended. \<open>process_dataset\<close> itself assigns the descriptor's timestamp to its
  identifier in the shared state mapping, exactly when it returns an output path, and
  leaves the mapping as it was when it skips or raises. \<open>main\<close> has no merge step: a run
  that returns normally after dispatching tasks writes to the state file the mapping as
  the tasks left it.
\<close>

theorem process_dataset_state_effect:
  "(process_dataset e d md w = (r, md', w') \<longrightarrow>
      md' = (case r of
               Inr (Some p) \<Rightarrow> md(identifier d \<mapsto> modified d)
             | Inr None \<Rightarrow> md
             | Inl err \<Rightarrow> md)) \<and>
   (metastore_items e = Inr datasets \<and>
    hospital_datasets (unicode_lower e) (load_metadata w) datasets = Inr selected \<and>
    selected \<noteq> [] \<and>
    run_tasks e (completion_order e selected) (load_metadata w) w = (rs, md1, w1) \<and>
    fst (main e w) = Inr ()
      \<longrightarrow> metadata_file (snd (main e w)) = Some md1)"
proof (intro conjI impI)
  assume "process_dataset e d md w = (r, md', w')"
  then show "md' = (case r of
               Inr (Some p) \<Rightarrow> md(identifier d \<mapsto> modified d)
             | Inr None \<Rightarrow> md
             | Inl err \<Rightarrow> md)"
    using process_dataset_result_cases [of e d md w r md' w'] by auto
next
  assume a: "metastore_items e = Inr datasets \<and>
    hospital_datasets (unicode_lower e) (load_metadata w) datasets = Inr selected \<and>
    selected \<noteq> [] \<and>
    run_tasks e (completion_order e selected) (load_metadata w) w = (rs, md1, w1) \<and>
    fst (main e w) = Inr ()"
  then show "metadata_file (snd (main e w)) = Some md1"
    using main_success_cases [of e datasets w] by auto
qed

theorem process_dataset_state_effect_witness:
  "fst (snd (process_dataset (env_ok []) (hospital_ds ''D1'' ''2024-02-01'' ''u1'') md_ex world1))
     = md_ex(Some (ustr ''D1'') \<mapsto> Some (ustr ''2024-02-01''))"
proof -
  let ?d = "hospital_ds ''D1'' ''2024-02-01'' ''u1''"
  obtain r md' w' where pd: "process_dataset (env_ok []) ?d md_ex world1 = (r, md', w')"
    by (cases "process_dataset (env_ok []) ?d md_ex world1") auto
  have r: "r = Inr (Some (ustr ''output/D1.csv''))"
    using pd by (simp add: process_dataset_def Let_def output_path_of_def OUTPUT_DIR_def path_join_def
        py_format_def env_ok_def hospital_ds_def ustr_def)
  show ?thesis
    using process_dataset_state_effect [of "env_ok []" ?d md_ex world1 r md' w'] r pd
    by (simp add: hospital_ds_def)
qed

text \<open>
  C3 as stated fails: a task that succeeds has changed the state mapping by itself.
\<close>

theorem process_dataset_mutates_state:
  "fst (snd (process_dataset (env_ok []) (hospital_ds ''D1'' ''2024-02-01'' ''u1'') Map.empty world0))
     \<noteq> Map.empty"
  by (simp add: process_dataset_def env_ok_def hospital_ds_def ustr_def Let_def)


text \<open>
  C1, as amended. When a dispatched task raises, the error is not caught: \<open>main\<close> ends
  with the error of a task, the first one in the order of completion, the state file is
  not written and stays as it was at the start of the run, while every task has run, so
  the output file of every task that succeeded is there.
\<close>

theorem failed_task_unwinds_run:
  assumes cat: "metastore_items e = Inr datasets"
    and sel: "hospital_datasets (unicode_lower e) (load_metadata w) datasets = Inr selected"
    and ne: "selected \<noteq> []"
    and run: "run_tasks e (completion_order e selected) (load_metadata w) w = (results, md1, w1)"
    and fail: "Inl err0 \<in> set results"
  shows "\<exists>err before after.
           fst (main e w) = Inl err \<and>
           results = before @ Inl err # after \<and> (\<forall>err'. Inl err' \<notin> set before) \<and>
           metadata_file (snd (main e w)) = metadata_file w \<and>
           (\<forall>p. Inr (Some p) \<in> set results \<longrightarrow> output_files (snd (main e w)) p \<noteq> None)"
proof -
  obtain err before after where err: "fst (collect_results results w1) = Inl err"
    and first: "results = before @ Inl err # after" "\<forall>err'. Inl err' \<notin> set before"
    using collect_results_first [OF fail] by blast
  obtain w2 where cr: "collect_results results w1 = (Inl err, w2)"
    using err by (cases "collect_results results w1") auto
  have m: "main e w = (Inl err, w2)"
    using cat sel ne run cr by (simp add: main_def fetch_datasets_def)
  have w2: "metadata_file w2 = metadata_file w1" "output_files w2 = output_files w1"
    using collect_results_frame [of results w1] cr by simp_all
  note fr = run_tasks_frame [OF run]
  have "metadata_file (snd (main e w)) = metadata_file w" using m w2 fr by simp
  moreover have "\<forall>p. Inr (Some p) \<in> set results \<longrightarrow> output_files (snd (main e w)) p \<noteq> None"
    using m w2 fr by auto
  moreover have "fst (main e w) = Inl err" using m by simp
  ultimately show ?thesis using first by blast
qed

theorem failed_task_unwinds_run_witness:
  "fst (main (env_u2_fails catalog3) world0) = Inl HTTPError \<and>
   metadata_file (snd (main (env_u2_fails catalog3) world0)) = None \<and>
   output_files (snd (main (env_u2_fails catalog3) world0)) (ustr ''output/D1.csv'') \<noteq> None \<and>
   output_files (snd (main (env_u2_fails catalog3) world0)) (ustr ''output/D3.csv'') \<noteq> None"
proof -
  let ?e = "env_u2_fails catalog3"
  have cat: "metastore_items ?e = Inr catalog3"
    by (simp add: env_u2_fails_def env_ok_def)
  have sel: "hospital_datasets (unicode_lower ?e) (load_metadata world0) catalog3 = Inr catalog3"
    by (simp add: ex_defs catalog3_def str_defs load_metadata_def is_hospital_dataset_def needs_update_def)
  have ne: "catalog3 \<noteq> []" by (simp add: catalog3_def)
  obtain results md1 w1 where
    run: "run_tasks ?e (completion_order ?e catalog3) (load_metadata world0) world0 = (results, md1, w1)"
    by (cases "run_tasks ?e (completion_order ?e catalog3) (load_metadata world0) world0") auto
  have res: "results = [Inr (Some (ustr ''output/D1.csv'')), Inl HTTPError, Inr (Some (ustr ''output/D3.csv''))]"
    using run by (auto simp: run_defs ex_defs catalog3_def str_defs)
  have fail: "Inl HTTPError \<in> set results" using res by simp
  have mf: "metadata_file world0 = None" by (simp add: world0_def)
  obtain err before after where main: "fst (main ?e world0) = Inl err"
    and first: "results = before @ Inl err # after" "\<forall>err'. Inl err' \<notin> set before"
    and unchanged: "metadata_file (snd (main ?e world0)) = metadata_file world0"
    and out: "\<forall>p. Inr (Some p) \<in> set results \<longrightarrow> output_files (snd (main ?e world0)) p \<noteq> None"
    using failed_task_unwinds_run [OF cat sel ne run fail] by blast
  have "Inl err \<in> set results" using first by simp
  then have "err = HTTPError" using res by auto
  then show ?thesis using main unchanged out res mf by auto
qed

text \<open>
  C1 as stated fails: of three selected datasets the second fails to download, the run
  ends with that error and no state file is written.
\<close>

theorem failed_task_state_not_persisted:
  "fst (main (env_u2_fails catalog3) world0) = Inl HTTPError \<and>
   metadata_file (snd (main (env_u2_fails catalog3) world0)) = None"
  by (simp add: run_defs ex_defs catalog3_def str_defs)





end
